theory Spec2Isabelle
  imports Complex_Main
begin

section \<open>Time, identifiers and errors\<close>

text \<open>
  The timer module \<^verbatim>\<open>nautilus_trader/common/timer.pyx\<close> works on cpython's
  \<^verbatim>\<open>datetime\<close> and \<^verbatim>\<open>timedelta\<close>. Both have microsecond resolution. A \<^verbatim>\<open>datetime\<close>
  is modelled as the integer count of microseconds since 1970-01-01 00:00:00 UTC and a
  \<^verbatim>\<open>timedelta\<close> as an integer count of microseconds; comparison is that of the
  integers. The timers are given UTC datetimes (so the docstrings say); the distinction
  between naive and aware values is not modelled.
\<close>

type_synonym datetime = int
type_synonym timedelta = int

text \<open>\<^verbatim>\<open>datetime.min\<close> is 0001-01-01 00:00:00 and \<^verbatim>\<open>datetime.max\<close> is 9999-12-31
  23:59:59.999999.\<close>

definition datetime_min :: datetime where
  "datetime_min = - 62135596800000000"

definition datetime_max :: datetime where
  "datetime_max = 253402300799999999"

definition datetime_ok :: "int \<Rightarrow> bool" where
  "datetime_ok x = (datetime_min \<le> x \<and> x \<le> datetime_max)"

text \<open>\<^verbatim>\<open>timedelta.total_seconds()\<close>: the duration in seconds (exact; the sign is the
  sign of the microsecond count, which is all the constructor's check reads).\<close>

definition total_seconds :: "timedelta \<Rightarrow> real" where
  "total_seconds d = real_of_int d / 1000000"

text \<open>A callback argument is any Python object; the constructor asks whether it is
  callable. The tag tells objects apart.\<close>

datatype callback = Callable nat | NotCallable nat

fun is_callable :: "callback \<Rightarrow> bool" where
  "is_callable (Callable _) = True"
| "is_callable (NotCallable _) = False"

text \<open>Every raise of the module is a value: a failed \<^verbatim>\<open>Condition\<close> check carries the
  parameter name or description the source passes to it; \<^verbatim>\<open>OverflowError\<close> is what
  cpython raises when the sum of a \<^verbatim>\<open>datetime\<close> and a \<^verbatim>\<open>timedelta\<close> is outside
  \<^verbatim>\<open>datetime.min\<close> .. \<^verbatim>\<open>datetime.max\<close>.\<close>

datatype error = ConditionFailed string | NotImplementedError string | OverflowError

text \<open>\<^verbatim>\<open>datetime + timedelta\<close>.\<close>

definition datetime_add :: "datetime \<Rightarrow> timedelta \<Rightarrow> error + datetime" where
  "datetime_add d td = (if datetime_ok (d + td) then Inr (d + td) else Inl OverflowError)"

subsection \<open>The precondition helpers\<close>

text \<open>
  The \<^verbatim>\<open>Condition\<close> class (\<^verbatim>\<open>nautilus_trader/core/correctness\<close>) is not part of the
  source tree; only an older declaration file of it is. Each check either passes or
  raises, and the raise carries the parameter name it was given.
\<close>

text \<open>Modelled from the spec: \<^verbatim>\<open>Condition.valid_string\<close> is missing from the source
  tree; the spec says construction rejects an empty name.\<close>

definition Condition_valid_string :: "string \<Rightarrow> string \<Rightarrow> error + unit" where
  "Condition_valid_string argument param_name =
     (if argument = [] then Inl (ConditionFailed param_name) else Inr ())"

text \<open>Modelled from the spec: \<^verbatim>\<open>Condition.callable\<close> is missing from the source tree;
  the spec calls the library a precondition-assertion helper, and the docstring of
  \<^verbatim>\<open>LiveTimer\<close> says that a callback which is not callable raises.\<close>

definition Condition_callable :: "callback \<Rightarrow> string \<Rightarrow> error + unit" where
  "Condition_callable argument param_name =
     (if is_callable argument then Inr () else Inl (ConditionFailed param_name))"

text \<open>Modelled from the spec: \<^verbatim>\<open>Condition.positive\<close> is missing from the source tree;
  the spec says construction rejects a non-positive interval.\<close>

definition Condition_positive :: "real \<Rightarrow> string \<Rightarrow> error + unit" where
  "Condition_positive v param_name =
     (if 0 < v then Inr () else Inl (ConditionFailed param_name))"

text \<open>Modelled from the spec: \<^verbatim>\<open>Condition.true\<close> is missing from the source tree; the
  spec says construction rejects \<open>start_time + interval > stop_time\<close>, the negation of
  the predicate the source passes.\<close>

definition Condition_true :: "bool \<Rightarrow> string \<Rightarrow> error + unit" where
  "Condition_true predicate description =
     (if predicate then Inr () else Inl (ConditionFailed description))"

text \<open>Modelled from the spec: \<^verbatim>\<open>Condition.not_none\<close> is missing from the source tree;
  it is the precondition that an argument is not \<^verbatim>\<open>None\<close>. An argument that Cython
  lets be \<^verbatim>\<open>None\<close> is an \<open>option\<close>.\<close>

definition Condition_not_none :: "'a option \<Rightarrow> string \<Rightarrow> error + 'a" where
  "Condition_not_none argument param_name =
     (case argument of None \<Rightarrow> Inl (ConditionFailed param_name) | Some v \<Rightarrow> Inr v)"

subsection \<open>The identifier factory\<close>

text \<open>
  \<^verbatim>\<open>UUIDFactory\<close> (\<^verbatim>\<open>nautilus_trader/core/uuid\<close>) is not part of the source tree. An
  identifier is a natural number and the state of a factory is the number of
  identifiers it has handed out, so that no identifier is handed out twice.
\<close>

type_synonym UUID = nat
type_synonym UUIDFactory = nat

text \<open>Modelled from the spec: the constructor of \<^verbatim>\<open>UUIDFactory\<close> is missing from the
  source tree; a new factory has handed out nothing.\<close>

definition UUIDFactory_init :: UUIDFactory where
  "UUIDFactory_init = 0"

text \<open>Modelled from the spec: \<^verbatim>\<open>UUIDFactory.generate\<close> is missing from the source
  tree; the spec asks that each call yields a fresh identifier that never repeats.\<close>

definition generate :: "UUIDFactory \<Rightarrow> UUID \<times> UUIDFactory" where
  "generate f = (f, Suc f)"

section \<open>TimeEvent and TimeEventHandler\<close>

record TimeEvent =
  event_name :: string
  event_id :: UUID
  event_timestamp :: datetime

definition TimeEvent_init :: "string \<Rightarrow> UUID \<Rightarrow> datetime \<Rightarrow> error + TimeEvent" where
  "TimeEvent_init nm eid ts =
     (case Condition_valid_string nm ''name'' of
        Inl e \<Rightarrow> Inl e
      | Inr _ \<Rightarrow> Inr \<lparr>event_name = nm, event_id = eid, event_timestamp = ts\<rparr>)"

definition TimeEvent_eq :: "TimeEvent \<Rightarrow> TimeEvent \<Rightarrow> bool" where
  "TimeEvent_eq self other = (event_name self = event_name other)"

definition TimeEvent_ne :: "TimeEvent \<Rightarrow> TimeEvent \<Rightarrow> bool" where
  "TimeEvent_ne self other = (event_name self \<noteq> event_name other)"

record TimeEventHandler =
  event :: TimeEvent
  handler :: callback

definition TimeEventHandler_eq :: "TimeEventHandler \<Rightarrow> TimeEventHandler \<Rightarrow> bool" where
  "TimeEventHandler_eq self other =
     (event_timestamp (event self) = event_timestamp (event other))"

definition TimeEventHandler_ne :: "TimeEventHandler \<Rightarrow> TimeEventHandler \<Rightarrow> bool" where
  "TimeEventHandler_ne self other =
     (event_timestamp (event self) \<noteq> event_timestamp (event other))"

definition TimeEventHandler_lt :: "TimeEventHandler \<Rightarrow> TimeEventHandler \<Rightarrow> bool" where
  "TimeEventHandler_lt self other =
     (event_timestamp (event self) < event_timestamp (event other))"

definition TimeEventHandler_le :: "TimeEventHandler \<Rightarrow> TimeEventHandler \<Rightarrow> bool" where
  "TimeEventHandler_le self other =
     (event_timestamp (event self) \<le> event_timestamp (event other))"

definition TimeEventHandler_gt :: "TimeEventHandler \<Rightarrow> TimeEventHandler \<Rightarrow> bool" where
  "TimeEventHandler_gt self other =
     (event_timestamp (event self) > event_timestamp (event other))"

definition TimeEventHandler_ge :: "TimeEventHandler \<Rightarrow> TimeEventHandler \<Rightarrow> bool" where
  "TimeEventHandler_ge self other =
     (event_timestamp (event self) \<ge> event_timestamp (event other))"

section \<open>Timer\<close>

record Timer =
  name :: string
  callback :: callback
  interval :: timedelta
  start_time :: datetime
  next_time :: datetime
  stop_time :: "datetime option"
  expired :: bool

text \<open>\<^verbatim>\<open>Timer.__init__\<close>: four checks in the source's order, then the fields.
  \<^verbatim>\<open>if stop_time:\<close> is true of every \<^verbatim>\<open>datetime\<close> object, so the last check runs
  exactly when a stop time is given. \<^verbatim>\<open>start_time + interval\<close> is computed in that
  check and again for \<^verbatim>\<open>next_time\<close>; either addition can raise.\<close>

definition Timer_init ::
  "string \<Rightarrow> callback \<Rightarrow> timedelta \<Rightarrow> datetime \<Rightarrow> datetime option \<Rightarrow> error + Timer" where
  "Timer_init nm cb iv start stop =
     (case Condition_valid_string nm ''name'' of Inl e \<Rightarrow> Inl e | Inr _ \<Rightarrow>
     (case Condition_callable cb ''function'' of Inl e \<Rightarrow> Inl e | Inr _ \<Rightarrow>
     (case Condition_positive (total_seconds iv) ''interval'' of Inl e \<Rightarrow> Inl e | Inr _ \<Rightarrow>
     (case (case stop of
              None \<Rightarrow> Inr ()
            | Some st \<Rightarrow>
                (case datetime_add start iv of
                   Inl e \<Rightarrow> Inl e
                 | Inr s \<Rightarrow> Condition_true (s \<le> st) ''start_time + interval <= stop_time''))
      of Inl e \<Rightarrow> Inl e | Inr _ \<Rightarrow>
     (case datetime_add start iv of Inl e \<Rightarrow> Inl e | Inr nxt \<Rightarrow>
      Inr \<lparr>name = nm, callback = cb, interval = iv, start_time = start,
           next_time = nxt, stop_time = stop, expired = False\<rparr>)))))"

definition Timer_eq :: "'a Timer_scheme \<Rightarrow> 'b Timer_scheme \<Rightarrow> bool" where
  "Timer_eq self other = (name self = name other)"

definition Timer_ne :: "'a Timer_scheme \<Rightarrow> 'b Timer_scheme \<Rightarrow> bool" where
  "Timer_ne self other = (name self \<noteq> name other)"

text \<open>\<^verbatim>\<open>Timer.__hash__\<close> is Python's \<^verbatim>\<open>hash\<close> of the name; the string hash of the
  interpreter is a parameter.\<close>

definition Timer_hash :: "(string \<Rightarrow> int) \<Rightarrow> 'a Timer_scheme \<Rightarrow> int" where
  "Timer_hash hash self = hash (name self)"

text \<open>A method returns its result together with the timer after the call.
  \<^verbatim>\<open>pop_event\<close> assigns nothing, and \<^verbatim>\<open>iterate_next_time\<close> assigns nothing before its
  only raise, so when they raise the timer is the one they were called on.\<close>

definition pop_event ::
  "'a Timer_scheme \<Rightarrow> UUID option \<Rightarrow> error + TimeEvent \<times> 'a Timer_scheme" where
  "pop_event self eid =
     (case Condition_not_none eid ''event_id'' of Inl e \<Rightarrow> Inl e | Inr i \<Rightarrow>
     (case TimeEvent_init (name self) i (next_time self) of Inl e \<Rightarrow> Inl e | Inr ev \<Rightarrow>
      Inr (ev, self)))"

definition iterate_next_time ::
  "'a Timer_scheme \<Rightarrow> datetime option \<Rightarrow> error + 'a Timer_scheme" where
  "iterate_next_time self now =
     (case Condition_not_none now ''now'' of Inl e \<Rightarrow> Inl e | Inr n \<Rightarrow>
     (case datetime_add (next_time self) (interval self) of Inl e \<Rightarrow> Inl e | Inr nxt \<Rightarrow>
      (let self1 = self\<lparr>next_time := nxt\<rparr> in
       Inr (if (case stop_time self1 of None \<Rightarrow> False | Some st \<Rightarrow> n \<ge> st)
            then self1\<lparr>expired := True\<rparr> else self1))))"

definition Timer_cancel :: "'a Timer_scheme \<Rightarrow> error + 'a Timer_scheme" where
  "Timer_cancel self = Inl (NotImplementedError ''method must be implemented in the subclass'')"

section \<open>TestTimer\<close>

record TestTimer = Timer +
  uuid_factory :: UUIDFactory

definition TestTimer_init ::
  "string \<Rightarrow> callback \<Rightarrow> timedelta \<Rightarrow> datetime \<Rightarrow> datetime option \<Rightarrow> error + TestTimer" where
  "TestTimer_init nm cb iv start stop =
     (case Condition_valid_string nm ''name'' of Inl e \<Rightarrow> Inl e | Inr _ \<Rightarrow>
     (case Timer_init nm cb iv start stop of Inl e \<Rightarrow> Inl e | Inr t \<Rightarrow>
      Inr \<lparr>name = name t, callback = callback t, interval = interval t,
           start_time = start_time t, next_time = next_time t, stop_time = stop_time t,
           expired = expired t, uuid_factory = UUIDFactory_init\<rparr>))"

text \<open>The methods of \<^verbatim>\<open>TestTimer\<close> draw identifiers from the factory before anything
  can raise, so a raise comes with the timer it leaves: \<open>Inl (e, t)\<close> is "raised \<open>e\<close>,
  the timer is now \<open>t\<close>", \<open>Inr (r, t)\<close> is "returned \<open>r\<close>, the timer is now \<open>t\<close>".\<close>

type_synonym 'a outcome = "error \<times> TestTimer + 'a \<times> TestTimer"

definition timer_after :: "'a outcome \<Rightarrow> TestTimer" where
  "timer_after r = (case r of Inl (e, t) \<Rightarrow> t | Inr (v, t) \<Rightarrow> t)"

text \<open>The \<^verbatim>\<open>while\<close> loop of \<^verbatim>\<open>TestTimer.advance\<close>. A timer whose interval is not
  positive and that never expires would loop forever, so the loop is a partial function:
  \<open>None\<close> is "does not return". When a call inside the loop raises, the events
  collected so far are lost with the local list.\<close>

partial_function (option) advance_loop ::
  "datetime \<Rightarrow> TimeEvent list \<Rightarrow> TestTimer \<Rightarrow> (TimeEvent list) outcome option" where
  "advance_loop to_time events self =
     (if \<not> expired self \<and> to_time \<ge> next_time self then
        (case generate (uuid_factory self) of (eid, f) \<Rightarrow>
        (case pop_event (self\<lparr>uuid_factory := f\<rparr>) (Some eid) of
           Inl e \<Rightarrow> Some (Inl (e, self\<lparr>uuid_factory := f\<rparr>))
         | Inr (ev, self1) \<Rightarrow>
        (case iterate_next_time self1 (Some (next_time self1)) of
           Inl e \<Rightarrow> Some (Inl (e, self1))
         | Inr self2 \<Rightarrow> advance_loop to_time (events @ [ev]) self2)))
      else Some (Inr (events, self)))"

definition advance :: "TestTimer \<Rightarrow> datetime option \<Rightarrow> (TimeEvent list) outcome option" where
  "advance self to_time =
     (case Condition_not_none to_time ''to_time'' of
        Inl e \<Rightarrow> Some (Inl (e, self))
      | Inr tt \<Rightarrow> advance_loop tt [] self)"

definition pop_next_event :: "TestTimer \<Rightarrow> TimeEvent outcome" where
  "pop_next_event self =
     (case generate (uuid_factory self) of (eid, f) \<Rightarrow>
     (case pop_event (self\<lparr>uuid_factory := f\<rparr>) (Some eid) of
        Inl e \<Rightarrow> Inl (e, self\<lparr>uuid_factory := f\<rparr>)
      | Inr (ev, self1) \<Rightarrow>
     (case iterate_next_time self1 (Some (next_time self1)) of
        Inl e \<Rightarrow> Inl (e, self1)
      | Inr self2 \<Rightarrow> Inr (ev, self2))))"

definition cancel :: "TestTimer \<Rightarrow> TestTimer" where
  "cancel self = self\<lparr>expired := True\<rparr>"

text \<open>\<^verbatim>\<open>LiveTimer\<close> adds to \<^verbatim>\<open>Timer\<close> a wall-clock thread that calls the callback; it
  shares \<^verbatim>\<open>pop_event\<close> and \<^verbatim>\<open>iterate_next_time\<close> with \<^verbatim>\<open>TestTimer\<close> and has no
  deterministic behaviour of its own to state here.\<close>

section \<open>Vocabulary of the properties\<close>

text \<open>One pass through the body of the loop (equally, one \<^verbatim>\<open>pop_next_event\<close>) on a
  timer with a valid name whose next fire point plus interval is a datetime: the event
  it produces and the timer it leaves.\<close>

definition fire_event :: "TestTimer \<Rightarrow> TimeEvent" where
  "fire_event t =
     \<lparr>event_name = name t, event_id = uuid_factory t, event_timestamp = next_time t\<rparr>"

definition fire :: "TestTimer \<Rightarrow> TestTimer" where
  "fire t =
     (let t1 = t\<lparr>uuid_factory := Suc (uuid_factory t), next_time := next_time t + interval t\<rparr> in
      if (case stop_time t of None \<Rightarrow> False | Some st \<Rightarrow> next_time t \<ge> st)
      then t1\<lparr>expired := True\<rparr> else t1)"

text \<open>The fire points \<open>nxt, nxt + iv, ...\<close> that are at most \<open>to_time\<close>, in order.\<close>

definition fire_points :: "datetime \<Rightarrow> timedelta \<Rightarrow> datetime \<Rightarrow> datetime list" where
  "fire_points nxt iv to_time =
     map (\<lambda>k. nxt + int k * iv) [0..<nat ((to_time - nxt) div iv + 1)]"

text \<open>The fire points the loop passes through before it sees the expired flag: a list
  of fire points cut after its first element at or past the stop time (uncut when there
  is no stop time).\<close>

definition until_stop :: "datetime option \<Rightarrow> datetime list \<Rightarrow> datetime list" where
  "until_stop stop ps =
     (case stop of
        None \<Rightarrow> ps
      | Some st \<Rightarrow> takeWhile (\<lambda>p. p < st) ps @ take 1 (dropWhile (\<lambda>p. p < st) ps))"

text \<open>What the loop returns from a timer \<open>t\<close> that is not expired, when no addition
  overflows: the events \<open>evs\<close> and the timer \<open>t'\<close> it leaves.\<close>

definition loop_result :: "datetime \<Rightarrow> TestTimer \<Rightarrow> TimeEvent list \<Rightarrow> TestTimer \<Rightarrow> bool" where
  "loop_result T t evs t' =
     (map event_timestamp evs =
        until_stop (stop_time t) (fire_points (next_time t) (interval t) T) \<and>
      map event_name evs = replicate (length evs) (name t) \<and>
      map event_id evs = [uuid_factory t..<uuid_factory t + length evs] \<and>
      t' = t\<lparr>next_time := next_time t + int (length evs) * interval t,
             expired := (evs \<noteq> [] \<and> (case stop_time t of None \<Rightarrow> False
                                       | Some st \<Rightarrow> st \<le> event_timestamp (last evs))),
             uuid_factory := uuid_factory t + length evs\<rparr>)"

text \<open>The outcome of the loop started with the events \<open>acc\<close> already collected.\<close>

definition prepend :: "TimeEvent list \<Rightarrow> (TimeEvent list) outcome \<Rightarrow> (TimeEvent list) outcome" where
  "prepend acc r = (case r of Inl x \<Rightarrow> Inl x | Inr (evs, t) \<Rightarrow> Inr (acc @ evs, t))"

text \<open>The calls a client can make on a \<^verbatim>\<open>TestTimer\<close>, with valid arguments, and the
  timer each call leaves, whether it returned or raised; a sequence of calls is made by
  a client that goes on after a raise.\<close>

datatype call =
  Advance datetime | PopNextEvent | Cancel | PopEvent UUID | IterateNextTime datetime

fun do_call :: "TestTimer \<Rightarrow> call \<Rightarrow> TestTimer option" where
  "do_call t (Advance T) = map_option timer_after (advance t (Some T))"
| "do_call t PopNextEvent = Some (timer_after (pop_next_event t))"
| "do_call t Cancel = Some (cancel t)"
| "do_call t (PopEvent i) =
     (case pop_event t (Some i) of Inl e \<Rightarrow> Some t | Inr (ev, t') \<Rightarrow> Some t')"
| "do_call t (IterateNextTime now) =
     (case iterate_next_time t (Some now) of Inl e \<Rightarrow> Some t | Inr t' \<Rightarrow> Some t')"

fun do_calls :: "TestTimer \<Rightarrow> call list \<Rightarrow> TestTimer option" where
  "do_calls t [] = Some t"
| "do_calls t (c # cs) = (case do_call t c of None \<Rightarrow> None | Some t' \<Rightarrow> do_calls t' cs)"

text \<open>The timer of the stop-time scenario with \<open>T0\<close> the epoch: interval one second,
  stop time at 2.5 seconds; the same timer with the stop time on a fire point, at 2
  seconds; with no stop time; and once expired.\<close>

definition demo_timer :: TestTimer where
  "demo_timer =
     \<lparr>name = ''timer'', callback = Callable 0, interval = 1000000, start_time = 0,
      next_time = 1000000, stop_time = Some 2500000, expired = False, uuid_factory = 0\<rparr>"



definition demo_expired :: TestTimer where
  "demo_expired = demo_timer\<lparr>expired := True\<rparr>"

text \<open>A timer whose next fire point is half a second before \<^verbatim>\<open>datetime.max\<close>.\<close>

definition demo_late :: TestTimer where
  "demo_late =
     \<lparr>name = ''timer'', callback = Callable 0, interval = 1000000,
      start_time = 253402300798499999, next_time = 253402300799499999, stop_time = None,
      expired = False, uuid_factory = 0\<rparr>"

section \<open>One pass of the loop\<close>

lemma datetime_add_ok: "datetime_ok (d + td) \<Longrightarrow> datetime_add d td = Inr (d + td)"
  by (simp add: datetime_add_def)

lemma datetime_add_overflow: "\<not> datetime_ok (d + td) \<Longrightarrow> datetime_add d td = Inl OverflowError"
  by (simp add: datetime_add_def)

lemma pop_event_Inr:
  "name t \<noteq> [] \<Longrightarrow>
   pop_event t (Some i) =
     Inr (\<lparr>event_name = name t, event_id = i, event_timestamp = next_time t\<rparr>, t)"
  by (simp add: pop_event_def Condition_not_none_def TimeEvent_init_def
      Condition_valid_string_def)

lemma pop_next_event_fire:
  "name t \<noteq> [] \<Longrightarrow> datetime_ok (next_time t + interval t) \<Longrightarrow>
   pop_next_event t = Inr (fire_event t, fire t)"
  by (cases "stop_time t")
     (simp_all add: pop_next_event_def generate_def pop_event_Inr iterate_next_time_def
       Condition_not_none_def datetime_add_ok fire_event_def fire_def Let_def)

lemma pop_next_event_overflow:
  "name t \<noteq> [] \<Longrightarrow> \<not> datetime_ok (next_time t + interval t) \<Longrightarrow>
   pop_next_event t = Inl (OverflowError, t\<lparr>uuid_factory := Suc (uuid_factory t)\<rparr>)"
  by (simp add: pop_next_event_def generate_def pop_event_Inr iterate_next_time_def
       Condition_not_none_def datetime_add_overflow)

lemma advance_loop_step:
  "name t \<noteq> [] \<Longrightarrow> \<not> expired t \<Longrightarrow> next_time t \<le> T \<Longrightarrow>
   datetime_ok (next_time t + interval t) \<Longrightarrow>
   advance_loop T acc t = advance_loop T (acc @ [fire_event t]) (fire t)"
  by (subst advance_loop.simps, cases "stop_time t")
     (simp_all add: generate_def pop_event_Inr iterate_next_time_def
       Condition_not_none_def datetime_add_ok fire_event_def fire_def Let_def)

lemma advance_loop_overflow:
  "name t \<noteq> [] \<Longrightarrow> \<not> expired t \<Longrightarrow> next_time t \<le> T \<Longrightarrow>
   \<not> datetime_ok (next_time t + interval t) \<Longrightarrow>
   advance_loop T acc t = Some (Inl (OverflowError, t\<lparr>uuid_factory := Suc (uuid_factory t)\<rparr>))"
  by (subst advance_loop.simps)
     (simp add: generate_def pop_event_Inr iterate_next_time_def
       Condition_not_none_def datetime_add_overflow)

lemma advance_loop_done:
  "expired t \<or> T < next_time t \<Longrightarrow> advance_loop T acc t = Some (Inr (acc, t))"
  by (subst advance_loop.simps) auto

lemma advance_eq_loop: "advance t (Some T) = advance_loop T [] t"
  by (simp add: advance_def Condition_not_none_def)

lemma fire_simps:
  "name (fire t) = name t" "interval (fire t) = interval t" "stop_time (fire t) = stop_time t"
  "start_time (fire t) = start_time t" "callback (fire t) = callback t"
  "next_time (fire t) = next_time t + interval t" "uuid_factory (fire t) = Suc (uuid_factory t)"
  by (simp_all add: fire_def Let_def)

lemma fire_expired:
  "expired (fire t) =
     (expired t \<or> (case stop_time t of None \<Rightarrow> False | Some st \<Rightarrow> st \<le> next_time t))"
  by (simp add: fire_def Let_def split: option.splits)

lemma prepend_simps:
  "prepend acc (Inl x) = Inl x" "prepend acc (Inr (evs, t)) = Inr (acc @ evs, t)"
  "prepend [] r = r" "timer_after (prepend acc r) = timer_after r"
  "prepend acc (prepend acc' r) = prepend (acc @ acc') r"
  by (auto simp: prepend_def timer_after_def split: sum.splits)

lemma timer_after_simps:
  "timer_after (Inl (e, t)) = t" "timer_after (Inr (v, t)) = t"
  by (simp_all add: timer_after_def)

section \<open>Fire points\<close>

lemma fire_points_Nil: "0 < iv \<Longrightarrow> T < x \<Longrightarrow> fire_points x iv T = []"
proof -
  assume a: "0 < iv" "T < x"
  then have "(T - x) div iv < 0" by (simp add: pos_imp_zdiv_neg_iff)
  then show ?thesis by (simp add: fire_points_def)
qed

lemma fire_points_Cons:
  assumes "0 < iv" "x \<le> T"
  shows "fire_points x iv T = x # fire_points (x + iv) iv T"
proof -
  let ?q = "(T - x) div iv"
  have q: "0 \<le> ?q" using assms by (simp add: pos_imp_zdiv_nonneg_iff)
  have e: "T - (x + iv) = T - x - iv" by simp
  have "(T - x - iv) div iv = ?q - 1"
    using assms(1) div_mult_self2 [of iv "T - x" "- 1"] by simp
  then have "(T - (x + iv)) div iv = ?q - 1"
    by (simp only: e)
  then have n: "nat ((T - (x + iv)) div iv + 1) = nat ?q" by simp
  have m: "nat (?q + 1) = Suc (nat ?q)" using q by simp
  have "map (\<lambda>k. x + int k * iv) [0..<Suc (nat ?q)] =
        x # map (\<lambda>k. x + iv + int k * iv) [0..<nat ?q]"
    by (simp only: upt_conv_Cons zero_less_Suc map_Suc_upt [symmetric] list.map map_map o_def)
       (simp add: algebra_simps)
  then show ?thesis
    unfolding fire_points_def n m .
qed

lemma until_stop_Nil: "until_stop stop [] = []"
  by (simp add: until_stop_def split: option.splits)

lemma until_stop_Cons:
  "until_stop stop (p # ps) =
     (if (case stop of None \<Rightarrow> False | Some st \<Rightarrow> st \<le> p) then [p]
      else p # until_stop stop ps)"
  by (auto simp: until_stop_def split: option.splits)







section \<open>The loop in closed form\<close>

lemma loop_result_Nil:
  "0 < interval t \<Longrightarrow> \<not> expired t \<Longrightarrow> T < next_time t \<Longrightarrow> loop_result T t [] t"
  by (simp add: loop_result_def fire_points_Nil until_stop_Nil)

lemma loop_result_single:
  "0 < interval t \<Longrightarrow> next_time t \<le> T \<Longrightarrow> expired (fire t) \<Longrightarrow> \<not> expired t \<Longrightarrow>
   loop_result T t [fire_event t] (fire t)"
  by (cases "stop_time t")
     (simp_all add: loop_result_def fire_points_Cons until_stop_Cons fire_event_def fire_def
        Let_def split: if_splits)

lemma loop_result_Cons:
  assumes "0 < interval t" "next_time t \<le> T" "\<not> expired (fire t)" "\<not> expired t"
    and r: "loop_result T (fire t) evs t'"
  shows "loop_result T t (fire_event t # evs) t'"
proof -
  have ns: "(case stop_time t of None \<Rightarrow> False | Some st \<Rightarrow> st \<le> next_time t) = False"
    using assms(3,4) by (simp add: fire_expired)
  have ts: "map event_timestamp (fire_event t # evs) =
        until_stop (stop_time t) (fire_points (next_time t) (interval t) T)"
    using r assms(1,2) ns
    by (simp add: loop_result_def fire_points_Cons until_stop_Cons fire_simps fire_event_def)
  have nm: "map event_name (fire_event t # evs) =
        replicate (length (fire_event t # evs)) (name t)"
    using r by (simp add: loop_result_def fire_simps fire_event_def)
  have ids: "map event_id (fire_event t # evs) =
        [uuid_factory t..<uuid_factory t + length (fire_event t # evs)]"
  proof -
    have "map event_id evs = [Suc (uuid_factory t)..<Suc (uuid_factory t) + length evs]"
      using r by (simp only: loop_result_def fire_simps)
    moreover have "[uuid_factory t..<uuid_factory t + length (fire_event t # evs)] =
        uuid_factory t # [Suc (uuid_factory t)..<Suc (uuid_factory t) + length evs]"
      by (simp add: upt_conv_Cons del: upt_Suc)
    ultimately show ?thesis by (simp add: fire_event_def del: upt_Suc)
  qed
  have st: "t' = t\<lparr>next_time := next_time t + int (length (fire_event t # evs)) * interval t,
             expired := (fire_event t # evs \<noteq> [] \<and> (case stop_time t of None \<Rightarrow> False
                 | Some st \<Rightarrow> st \<le> event_timestamp (last (fire_event t # evs)))),
             uuid_factory := uuid_factory t + length (fire_event t # evs)\<rparr>"
  proof (cases "evs = []")
    case True
    then show ?thesis using r assms(3,4) ns
      by (cases "stop_time t") (simp_all add: loop_result_def fire_def Let_def fire_event_def)
  next
    case False
    then show ?thesis using r assms(3,4) ns
      by (cases "stop_time t")
         (simp_all add: loop_result_def fire_def Let_def fire_event_def algebra_simps)
  qed
  show ?thesis unfolding loop_result_def using ts nm ids st by blast
qed

text \<open>When no addition overflows: the next fire point is a datetime and \<open>T + interval\<close>
  is at most \<^verbatim>\<open>datetime.max\<close>.\<close>

lemma advance_loop_closed:
  assumes "name t \<noteq> []" "0 < interval t" "\<not> expired t"
    "datetime_min \<le> next_time t" "T + interval t \<le> datetime_max"
  shows "\<exists>evs t'. (\<forall>acc. advance_loop T acc t = Some (Inr (acc @ evs, t'))) \<and>
           loop_result T t evs t'"
  using assms
proof (induction "nat (T + 1 - next_time t)" arbitrary: t rule: less_induct)
  case less
  show ?case
  proof (cases "T < next_time t")
    case True
    then have "\<forall>acc. advance_loop T acc t = Some (Inr (acc @ [], t))"
      by (simp add: advance_loop_done)
    then show ?thesis using loop_result_Nil [OF less.prems(2,3) True] by blast
  next
    case False
    then have le: "next_time t \<le> T" by simp
    have ok: "datetime_ok (next_time t + interval t)"
      using less.prems(2,4,5) le by (simp add: datetime_ok_def)
    have step: "advance_loop T acc t = advance_loop T (acc @ [fire_event t]) (fire t)" for acc
      using less.prems le ok by (simp add: advance_loop_step)
    show ?thesis
    proof (cases "expired (fire t)")
      case True
      then have "\<forall>acc. advance_loop T acc t = Some (Inr (acc @ [fire_event t], fire t))"
        using step by (simp add: advance_loop_done)
      then show ?thesis
        using loop_result_single [OF less.prems(2) le True less.prems(3)] by blast
    next
      case False
      have "nat (T + 1 - next_time (fire t)) < nat (T + 1 - next_time t)"
        using less.prems(2) le by (simp add: fire_simps)
      from less.hyps [OF this] less.prems False
      obtain evs t' where
        a: "\<And>acc. advance_loop T acc (fire t) = Some (Inr (acc @ evs, t'))"
        and r: "loop_result T (fire t) evs t'"
        by (auto simp: fire_simps)
      have "\<forall>acc. advance_loop T acc t = Some (Inr (acc @ (fire_event t # evs), t'))"
        using step a by simp
      then show ?thesis
        using loop_result_Cons [OF less.prems(2) le False less.prems(3) r] by blast
    qed
  qed
qed

lemma advance_no_overflow:
  assumes "name t \<noteq> []" "0 < interval t"
    "datetime_min \<le> next_time t" "T + interval t \<le> datetime_max"
  shows "\<exists>evs t'. advance t (Some T) = Some (Inr (evs, t'))"
proof (cases "expired t")
  case True
  then show ?thesis by (simp add: advance_eq_loop advance_loop_done)
next
  case False
  from advance_loop_closed [OF assms(1,2) False assms(3,4)] obtain evs t' where
    "\<forall>acc. advance_loop T acc t = Some (Inr (acc @ evs, t'))" by blast
  then have "advance_loop T [] t = Some (Inr ([] @ evs, t'))" by blast
  then show ?thesis by (simp add: advance_eq_loop)
qed

text \<open>On a timer with a valid name and a positive interval the loop ends: it returns
  or it raises \<^verbatim>\<open>OverflowError\<close>. Either way it has touched only \<open>next_time\<close>,
  \<open>expired\<close> and the identifier factory, \<open>next_time\<close> has moved by whole intervals, and
  an expired timer is still expired.\<close>

lemma advance_loop_total:
  assumes "name t \<noteq> []" "0 < interval t"
  shows "\<exists>r k. (\<forall>acc. advance_loop T acc t = Some (prepend acc r)) \<and>
           name (timer_after r) = name t \<and> interval (timer_after r) = interval t \<and>
           start_time (timer_after r) = start_time t \<and>
           next_time (timer_after r) = next_time t + int k * interval t \<and>
           (expired (timer_after r) \<or> \<not> expired t) \<and>
           (expired t \<longrightarrow> r = Inr ([], t))"
  using assms
proof (induction "nat (T + 1 - next_time t)" arbitrary: t rule: less_induct)
  case less
  show ?case
  proof (cases "expired t \<or> T < next_time t")
    case True
    then have "\<forall>acc. advance_loop T acc t = Some (prepend acc (Inr ([], t)))"
      by (simp add: advance_loop_done prepend_simps)
    moreover have "next_time t = next_time t + int 0 * interval t" by simp
    ultimately show ?thesis
      by (intro exI [of _ "Inr ([], t)"] exI [of _ 0]) (simp add: timer_after_simps)
  next
    case False
    then have ne: "\<not> expired t" and le: "next_time t \<le> T" by simp_all
    show ?thesis
    proof (cases "datetime_ok (next_time t + interval t)")
      case False
      let ?t1 = "t\<lparr>uuid_factory := Suc (uuid_factory t)\<rparr>"
      have "\<forall>acc. advance_loop T acc t = Some (prepend acc (Inl (OverflowError, ?t1)))"
        using less.prems ne le False by (simp add: advance_loop_overflow prepend_simps)
      moreover have "next_time ?t1 = next_time t + int 0 * interval t" by simp
      ultimately show ?thesis using ne
        by (intro exI [of _ "Inl (OverflowError, ?t1)"] exI [of _ 0])
           (simp add: timer_after_simps)
    next
      case True
      have step: "advance_loop T acc t = advance_loop T (acc @ [fire_event t]) (fire t)" for acc
        using less.prems ne le True by (simp add: advance_loop_step)
      have "nat (T + 1 - next_time (fire t)) < nat (T + 1 - next_time t)"
        using less.prems(2) le by (simp add: fire_simps)
      from less.hyps [OF this] less.prems
      obtain r k where
        a: "\<And>acc. advance_loop T acc (fire t) = Some (prepend acc r)"
        and f: "name (timer_after r) = name t" "interval (timer_after r) = interval t"
          "start_time (timer_after r) = start_time t"
          "next_time (timer_after r) = next_time t + interval t + int k * interval t"
        by (auto simp: fire_simps)
      let ?r = "prepend [fire_event t] r"
      have "\<forall>acc. advance_loop T acc t = Some (prepend acc ?r)"
        using step a by (simp add: prepend_simps)
      moreover have "next_time (timer_after ?r) = next_time t + int (Suc k) * interval t"
        using f(4) by (simp add: prepend_simps algebra_simps)
      ultimately show ?thesis using f(1-3) ne
        by (intro exI [of _ ?r] exI [of _ "Suc k"]) (simp add: prepend_simps)
    qed
  qed
qed

text \<open>Advancing to \<open>T1\<close> is a prefix of advancing to any later \<open>T2\<close>; if the first
  raises, so do the second and the single one, at the same \<open>next_time\<close>.\<close>

lemma advance_loop_split:
  assumes "name t \<noteq> []" "0 < interval t" "T1 \<le> T2"
  shows "(\<exists>e1 t1. (\<forall>acc. advance_loop T1 acc t = Some (Inr (acc @ e1, t1))) \<and>
            (\<forall>acc. advance_loop T2 (acc @ e1) t1 = advance_loop T2 acc t) \<and>
            name t1 = name t \<and> interval t1 = interval t) \<or>
         (\<exists>t1 t2 tr. (\<forall>acc. advance_loop T1 acc t = Some (Inl (OverflowError, t1))) \<and>
            (\<forall>acc. advance_loop T2 acc t1 = Some (Inl (OverflowError, t2))) \<and>
            (\<forall>acc. advance_loop T2 acc t = Some (Inl (OverflowError, tr))) \<and>
            next_time t2 = next_time tr \<and> expired t2 = expired tr)"
  using assms
proof (induction "nat (T1 + 1 - next_time t)" arbitrary: t rule: less_induct)
  case less
  show ?case
  proof (cases "expired t \<or> T1 < next_time t")
    case True
    then have "\<forall>acc. advance_loop T1 acc t = Some (Inr (acc @ [], t))"
      by (simp add: advance_loop_done)
    moreover have "\<forall>acc. advance_loop T2 (acc @ []) t = advance_loop T2 acc t" by simp
    ultimately show ?thesis by blast
  next
    case False
    then have ne: "\<not> expired t" and le: "next_time t \<le> T1" by simp_all
    then have le2: "next_time t \<le> T2" using less.prems(3) by simp
    show ?thesis
    proof (cases "datetime_ok (next_time t + interval t)")
      case False
      let ?t1 = "t\<lparr>uuid_factory := Suc (uuid_factory t)\<rparr>"
      let ?t2 = "?t1\<lparr>uuid_factory := Suc (uuid_factory ?t1)\<rparr>"
      have 1: "\<forall>acc. advance_loop T1 acc t = Some (Inl (OverflowError, ?t1))"
        using less.prems(1) ne le False by (simp add: advance_loop_overflow)
      have 3: "\<forall>acc. advance_loop T2 acc t = Some (Inl (OverflowError, ?t1))"
        using less.prems(1) ne le2 False by (simp add: advance_loop_overflow)
      have "name ?t1 \<noteq> []" "\<not> expired ?t1" "next_time ?t1 \<le> T2"
        "\<not> datetime_ok (next_time ?t1 + interval ?t1)"
        using less.prems(1) ne le2 False by simp_all
      then have 2: "\<forall>acc. advance_loop T2 acc ?t1 = Some (Inl (OverflowError, ?t2))"
        by (simp only: advance_loop_overflow simp_thms)
      have "next_time ?t2 = next_time ?t1 \<and> expired ?t2 = expired ?t1" by simp
      with 1 2 3 show ?thesis by blast
    next
      case True
      have s1: "advance_loop T1 acc t = advance_loop T1 (acc @ [fire_event t]) (fire t)" for acc
        using less.prems ne le True by (simp add: advance_loop_step)
      have s2: "advance_loop T2 acc t = advance_loop T2 (acc @ [fire_event t]) (fire t)" for acc
        using less.prems ne le2 True by (simp add: advance_loop_step)
      have "nat (T1 + 1 - next_time (fire t)) < nat (T1 + 1 - next_time t)"
        using less.prems(2) le by (simp add: fire_simps)
      from less.hyps [OF this] less.prems
      consider
        (ret) e1 t1 where
          "\<And>acc. advance_loop T1 acc (fire t) = Some (Inr (acc @ e1, t1))"
          "\<And>acc. advance_loop T2 (acc @ e1) t1 = advance_loop T2 acc (fire t)"
          "name t1 = name t" "interval t1 = interval t"
      | (raise) t1 t2 tr where
          "\<And>acc. advance_loop T1 acc (fire t) = Some (Inl (OverflowError, t1))"
          "\<And>acc. advance_loop T2 acc t1 = Some (Inl (OverflowError, t2))"
          "\<And>acc. advance_loop T2 acc (fire t) = Some (Inl (OverflowError, tr))"
          "next_time t2 = next_time tr" "expired t2 = expired tr"
        by (auto simp: fire_simps)
      then show ?thesis
      proof cases
        case ret
        have "\<forall>acc. advance_loop T1 acc t = Some (Inr (acc @ (fire_event t # e1), t1))"
          using s1 ret(1) by simp
        moreover have
          "advance_loop T2 (acc @ (fire_event t # e1)) t1 = advance_loop T2 acc t" for acc
          using ret(2) [of "acc @ [fire_event t]"] s2 [of acc] by simp
        ultimately show ?thesis using ret(3,4) by blast
      next
        case raise
        have "\<forall>acc. advance_loop T1 acc t = Some (Inl (OverflowError, t1))"
          using s1 raise(1) by simp
        moreover have "\<forall>acc. advance_loop T2 acc t = Some (Inl (OverflowError, tr))"
          using s2 raise(3) by simp
        ultimately show ?thesis using raise(2,4,5) by blast
      qed
    qed
  qed
qed

section \<open>Construction\<close>

lemma Timer_init_Inr:
  "nm \<noteq> [] \<Longrightarrow> is_callable cb \<Longrightarrow> 0 < iv \<Longrightarrow>
   (case stop of None \<Rightarrow> True | Some st \<Rightarrow> start + iv \<le> st) \<Longrightarrow>
   datetime_ok (start + iv) \<Longrightarrow>
   Timer_init nm cb iv start stop =
     Inr \<lparr>name = nm, callback = cb, interval = iv, start_time = start,
          next_time = start + iv, stop_time = stop, expired = False\<rparr>"
  by (simp add: Timer_init_def Condition_valid_string_def Condition_callable_def
      Condition_positive_def Condition_true_def total_seconds_def datetime_add_ok
      split: option.splits)

lemma Timer_init_Inl:
  "nm = [] \<or> \<not> is_callable cb \<or> iv \<le> 0 \<or>
   (case stop of None \<Rightarrow> False | Some st \<Rightarrow> st < start + iv) \<or>
   \<not> datetime_ok (start + iv) \<Longrightarrow>
   \<exists>e. Timer_init nm cb iv start stop = Inl e"
  by (auto simp: Timer_init_def Condition_valid_string_def Condition_callable_def
      Condition_positive_def Condition_true_def total_seconds_def datetime_add_def
      split: option.splits)

lemma Timer_init_cases:
  assumes "Timer_init nm cb iv start stop = Inr t"
  shows "nm \<noteq> [] \<and> is_callable cb \<and> 0 < iv \<and>
         (case stop of None \<Rightarrow> True | Some st \<Rightarrow> start + iv \<le> st) \<and>
         datetime_ok (start + iv) \<and>
         t = \<lparr>name = nm, callback = cb, interval = iv, start_time = start,
              next_time = start + iv, stop_time = stop, expired = False\<rparr>"
proof -
  have ok: "nm \<noteq> [] \<and> is_callable cb \<and> 0 < iv \<and>
         (case stop of None \<Rightarrow> True | Some st \<Rightarrow> start + iv \<le> st) \<and>
         datetime_ok (start + iv)"
  proof (rule ccontr)
    assume "\<not> ?thesis"
    then have "nm = [] \<or> \<not> is_callable cb \<or> iv \<le> 0 \<or>
        (case stop of None \<Rightarrow> False | Some st \<Rightarrow> st < start + iv) \<or>
        \<not> datetime_ok (start + iv)"
      by (auto split: option.splits)
    from Timer_init_Inl [OF this] assms show False by auto
  qed
  then show ?thesis using assms by (simp add: Timer_init_Inr)
qed

lemma TestTimer_init_Inr:
  "nm \<noteq> [] \<Longrightarrow> is_callable cb \<Longrightarrow> 0 < iv \<Longrightarrow>
   (case stop of None \<Rightarrow> True | Some st \<Rightarrow> start + iv \<le> st) \<Longrightarrow>
   datetime_ok (start + iv) \<Longrightarrow>
   TestTimer_init nm cb iv start stop =
     Inr \<lparr>name = nm, callback = cb, interval = iv, start_time = start,
          next_time = start + iv, stop_time = stop, expired = False,
          uuid_factory = 0\<rparr>"
  by (simp add: TestTimer_init_def Timer_init_Inr Condition_valid_string_def UUIDFactory_init_def)

lemma TestTimer_init_cases:
  assumes "TestTimer_init nm cb iv start stop = Inr t"
  shows "nm \<noteq> [] \<and> is_callable cb \<and> 0 < iv \<and>
         (case stop of None \<Rightarrow> True | Some st \<Rightarrow> start + iv \<le> st) \<and>
         datetime_ok (start + iv) \<and>
         t = \<lparr>name = nm, callback = cb, interval = iv, start_time = start,
              next_time = start + iv, stop_time = stop, expired = False,
              uuid_factory = 0\<rparr>"
proof -
  from assms obtain tb where tb: "Timer_init nm cb iv start stop = Inr tb"
    by (auto simp: TestTimer_init_def split: sum.splits)
  from Timer_init_cases [OF tb] have ok: "nm \<noteq> [] \<and> is_callable cb \<and> 0 < iv \<and>
         (case stop of None \<Rightarrow> True | Some st \<Rightarrow> start + iv \<le> st) \<and>
         datetime_ok (start + iv)" by simp
  then show ?thesis using assms by (simp add: TestTimer_init_Inr)
qed

section \<open>Sequences of calls\<close>

lemma do_call_inv:
  assumes "name t \<noteq> []" "0 < interval t"
  shows "\<exists>t' k. do_call t c = Some t' \<and> name t' = name t \<and> interval t' = interval t \<and>
           start_time t' = start_time t \<and>
           next_time t' = next_time t + int k * interval t \<and> (expired t' \<or> \<not> expired t)"
proof (cases c)
  case (Advance T)
  from advance_loop_total [OF assms, of T] obtain r k where
    a: "\<forall>acc. advance_loop T acc t = Some (prepend acc r)"
    and f: "name (timer_after r) = name t \<and> interval (timer_after r) = interval t \<and>
           start_time (timer_after r) = start_time t \<and>
           next_time (timer_after r) = next_time t + int k * interval t \<and>
           (expired (timer_after r) \<or> \<not> expired t)"
    by blast
  from a have "advance_loop T [] t = Some (prepend [] r)" by blast
  then have "do_call t c = Some (timer_after r)"
    using Advance by (simp add: advance_eq_loop prepend_simps)
  then show ?thesis using f by blast
next
  case PopNextEvent
  show ?thesis
  proof (cases "datetime_ok (next_time t + interval t)")
    case True
    have "next_time (fire t) = next_time t + int 1 * interval t" by (simp add: fire_simps)
    moreover have "expired (fire t) \<or> \<not> expired t" by (auto simp: fire_expired)
    moreover have "do_call t c = Some (fire t)"
      using PopNextEvent assms(1) True by (simp add: pop_next_event_fire timer_after_simps)
    ultimately show ?thesis by (metis fire_simps(1,2,4))
  next
    case False
    let ?t1 = "t\<lparr>uuid_factory := Suc (uuid_factory t)\<rparr>"
    have "next_time ?t1 = next_time t + int 0 * interval t" by simp
    moreover have "do_call t c = Some ?t1"
      using PopNextEvent assms(1) False
      by (simp add: pop_next_event_overflow timer_after_simps)
    ultimately show ?thesis
      by (intro exI [of _ ?t1] exI [of _ 0]) simp
  qed
next
  case Cancel
  have "next_time (cancel t) = next_time t + int 0 * interval t" by (simp add: cancel_def)
  then show ?thesis using Cancel
    by (intro exI [of _ "cancel t"] exI [of _ 0]) (simp add: cancel_def)
next
  case (PopEvent i)
  have "next_time t = next_time t + int 0 * interval t" by simp
  then show ?thesis using PopEvent assms(1)
    by (intro exI [of _ t] exI [of _ 0]) (simp add: pop_event_Inr)
next
  case (IterateNextTime now)
  show ?thesis
  proof (cases "datetime_ok (next_time t + interval t)")
    case True
    obtain t' where t': "iterate_next_time t (Some now) = Inr t'"
      and f: "name t' = name t \<and> interval t' = interval t \<and> start_time t' = start_time t \<and>
        next_time t' = next_time t + interval t \<and> (expired t' \<or> \<not> expired t)"
      using True
      by (simp add: iterate_next_time_def Condition_not_none_def Let_def datetime_add_ok)
    then have "next_time t' = next_time t + int 1 * interval t" by simp
    moreover have "do_call t c = Some t'" using IterateNextTime t' by simp
    ultimately show ?thesis using f by blast
  next
    case False
    have "next_time t = next_time t + int 0 * interval t" by simp
    moreover have "do_call t c = Some t"
      using IterateNextTime False
      by (simp add: iterate_next_time_def Condition_not_none_def datetime_add_overflow)
    ultimately show ?thesis by (intro exI [of _ t] exI [of _ 0]) simp
  qed
qed

lemma do_calls_inv:
  assumes "name t \<noteq> []" "0 < interval t"
  shows "\<exists>t' k. do_calls t cs = Some t' \<and> name t' = name t \<and> interval t' = interval t \<and>
           start_time t' = start_time t \<and>
           next_time t' = next_time t + int k * interval t \<and> (expired t' \<or> \<not> expired t)"
  using assms
proof (induction cs arbitrary: t)
  case Nil
  have "next_time t = next_time t + int 0 * interval t" by simp
  then show ?case by (intro exI [of _ t] exI [of _ 0]) simp
next
  case (Cons c cs)
  from do_call_inv [OF Cons.prems, of c] obtain t1 k1 where
    c1: "do_call t c = Some t1" and n1: "name t1 = name t" and i1: "interval t1 = interval t"
    and s1: "start_time t1 = start_time t"
    and x1: "next_time t1 = next_time t + int k1 * interval t" and e1: "expired t1 \<or> \<not> expired t"
    by blast
  have "name t1 \<noteq> []" "0 < interval t1" using Cons.prems n1 i1 by simp_all
  from Cons.IH [OF this] obtain t2 k2 where
    c2: "do_calls t1 cs = Some t2" and n2: "name t2 = name t1"
    and i2: "interval t2 = interval t1" and s2: "start_time t2 = start_time t1"
    and x2: "next_time t2 = next_time t1 + int k2 * interval t1"
    and e2: "expired t2 \<or> \<not> expired t1"
    by blast
  have "do_calls t (c # cs) = Some t2" using c1 c2 by simp
  moreover have "next_time t2 = next_time t + int (k1 + k2) * interval t"
    using x1 x2 i1 by (simp add: algebra_simps)
  moreover have "expired t2 \<or> \<not> expired t" using e1 e2 by blast
  ultimately show ?case using n1 n2 i1 i2 s1 s2 by metis
qed
section \<open>The end of the datetime range\<close>

text \<open>Half a second before \<^verbatim>\<open>datetime.max\<close> the next addition of one second raises:
  in the constructor, in \<^verbatim>\<open>pop_next_event\<close> and in the loop of \<^verbatim>\<open>advance\<close>, which
  loses the event it had collected.\<close>

lemma overflow_at_datetime_max:
  "Timer_init ''timer'' (Callable 0) 1000000 253402300799499999 None = Inl OverflowError \<and>
   pop_next_event demo_late = Inl (OverflowError, demo_late\<lparr>uuid_factory := 1\<rparr>) \<and>
   advance demo_late (Some 253402300799999999) =
     Some (Inl (OverflowError, demo_late\<lparr>uuid_factory := 1\<rparr>))"
  by (simp add: Timer_init_def Condition_valid_string_def Condition_callable_def
      Condition_positive_def total_seconds_def datetime_add_def datetime_ok_def
      datetime_min_def datetime_max_def demo_late_def pop_next_event_overflow
      advance_eq_loop advance_loop_overflow)

section \<open>The claims\<close>

subsection \<open>TimeEventHandler ordering\<close>

text \<open>
  C7. For every pair of TimeEventHandlers \<open>h1\<close>, \<open>h2\<close>: \<open>h1 < h2\<close> holds exactly when the
  timestamp of \<open>h1\<close>'s event is less than that of \<open>h2\<close>'s, \<open>h1 == h2\<close> exactly when
  the two timestamps are equal, and likewise for \<open>!=\<close>, \<open><=\<close>, \<open>>\<close>, \<open>>=\<close>. Names,
  ids and handlers play no part: replacing them in either handler changes none of the
  six comparisons.
\<close>

theorem TimeEventHandler_ordered_by_timestamp_only:
  "(TimeEventHandler_lt h1 h2 \<longleftrightarrow> event_timestamp (event h1) < event_timestamp (event h2)) \<and>
   (TimeEventHandler_eq h1 h2 \<longleftrightarrow> event_timestamp (event h1) = event_timestamp (event h2)) \<and>
   (TimeEventHandler_ne h1 h2 \<longleftrightarrow> event_timestamp (event h1) \<noteq> event_timestamp (event h2)) \<and>
   (TimeEventHandler_le h1 h2 \<longleftrightarrow> event_timestamp (event h1) \<le> event_timestamp (event h2)) \<and>
   (TimeEventHandler_gt h1 h2 \<longleftrightarrow> event_timestamp (event h2) < event_timestamp (event h1)) \<and>
   (TimeEventHandler_ge h1 h2 \<longleftrightarrow> event_timestamp (event h2) \<le> event_timestamp (event h1)) \<and>
   (let h1' = \<lparr>event = \<lparr>event_name = n1, event_id = i1,
                          event_timestamp = event_timestamp (event h1)\<rparr>, handler = c1\<rparr>;
        h2' = \<lparr>event = \<lparr>event_name = n2, event_id = i2,
                          event_timestamp = event_timestamp (event h2)\<rparr>, handler = c2\<rparr>
    in TimeEventHandler_lt h1' h2' = TimeEventHandler_lt h1 h2 \<and>
       TimeEventHandler_eq h1' h2' = TimeEventHandler_eq h1 h2 \<and>
       TimeEventHandler_ne h1' h2' = TimeEventHandler_ne h1 h2 \<and>
       TimeEventHandler_le h1' h2' = TimeEventHandler_le h1 h2 \<and>
       TimeEventHandler_gt h1' h2' = TimeEventHandler_gt h1 h2 \<and>
       TimeEventHandler_ge h1' h2' = TimeEventHandler_ge h1 h2)"
  by (simp add: TimeEventHandler_lt_def TimeEventHandler_eq_def TimeEventHandler_ne_def
      TimeEventHandler_le_def TimeEventHandler_gt_def TimeEventHandler_ge_def Let_def)

subsection \<open>Timer equality and hashing\<close>

text \<open>
  C10. Timer equality and hashing are determined by the name alone: two timers compare
  equal exactly when their names are equal (and unequal exactly when the names differ),
  and two timers with the same name compare equal and have the same hash whatever their
  callback, interval, start time, next time, stop time and expired flag are.
\<close>

theorem Timer_eq_hash_by_name_only:
  "(Timer_eq t1 t2 \<longleftrightarrow> name t1 = name t2) \<and>
   (Timer_ne t1 t2 \<longleftrightarrow> name t1 \<noteq> name t2) \<and>
   (let a = \<lparr>name = nm, callback = c1, interval = i1, start_time = s1, next_time = n1,
             stop_time = p1, expired = x1\<rparr>;
        b = \<lparr>name = nm, callback = c2, interval = i2, start_time = s2, next_time = n2,
             stop_time = p2, expired = x2\<rparr>
    in Timer_eq a b \<and> \<not> Timer_ne a b \<and> Timer_hash hash a = Timer_hash hash b)"
  by (simp add: Timer_eq_def Timer_ne_def Timer_hash_def Let_def)

subsection \<open>pop_event\<close>

text \<open>
  C9. For every timer (its name is not empty, as construction ensures) and every id that
  is not None, \<open>pop_event\<close> returns a TimeEvent whose name is the timer's name, whose id
  is the given id and whose timestamp is the timer's current \<open>next_time\<close>, and it leaves
  the timer as it was, every field unchanged.
\<close>

theorem pop_event_stamps_next_time_and_keeps_timer:
  "name t \<noteq> [] \<Longrightarrow>
   pop_event t (Some i) =
     Inr (\<lparr>event_name = name t, event_id = i, event_timestamp = next_time t\<rparr>, t)"
  by (simp add: pop_event_def Condition_not_none_def TimeEvent_init_def
      Condition_valid_string_def)

theorem pop_event_stamps_next_time_and_keeps_timer_witness:
  "name demo_timer \<noteq> [] \<and>
   pop_event demo_timer (Some 7) =
     Inr (\<lparr>event_name = ''timer'', event_id = 7, event_timestamp = 1000000\<rparr>, demo_timer)"
  using pop_event_stamps_next_time_and_keeps_timer [of demo_timer 7]
  by (simp add: demo_timer_def)

subsection \<open>Construction\<close>

text \<open>
  C6, as amended. Timer construction with an empty name, a callback that is not callable,
  a non-positive interval, a stop time with \<open>start_time + interval > stop_time\<close>, or a
  \<open>start_time + interval\<close> outside the range of \<^verbatim>\<open>datetime\<close> is rejected: the
  constructor raises and returns no timer. A construction that returns a timer returns
  one in a valid state (non-empty name, callable callback, positive interval, \<open>next_time
  = start_time + interval\<close>, the stop time not before it, not expired). Any construction
  with a non-empty name, a callable callback, a positive interval, \<open>start_time +
  interval\<close> in the range of \<^verbatim>\<open>datetime\<close> and, when a stop time is given, \<open>start_time
  + interval <= stop_time\<close> succeeds. The same holds of TestTimer.
\<close>

theorem Timer_init_validates:
  "(nm = [] \<or> \<not> is_callable cb \<or> iv \<le> 0 \<or>
      (case stop of None \<Rightarrow> False | Some st \<Rightarrow> st < start + iv) \<or>
      \<not> datetime_ok (start + iv) \<longrightarrow>
      (\<exists>e. Timer_init nm cb iv start stop = Inl e) \<and>
      (\<exists>e. TestTimer_init nm cb iv start stop = Inl e)) \<and>
   (Timer_init nm cb iv start stop = Inr t \<longrightarrow>
      name t \<noteq> [] \<and> is_callable (callback t) \<and> 0 < interval t \<and> \<not> expired t \<and>
      next_time t = start_time t + interval t \<and> datetime_ok (next_time t) \<and>
      (case stop_time t of None \<Rightarrow> True | Some st \<Rightarrow> start_time t + interval t \<le> st)) \<and>
   (nm \<noteq> [] \<and> is_callable cb \<and> 0 < iv \<and>
      (case stop of None \<Rightarrow> True | Some st \<Rightarrow> start + iv \<le> st) \<and>
      datetime_ok (start + iv) \<longrightarrow>
      Timer_init nm cb iv start stop =
        Inr \<lparr>name = nm, callback = cb, interval = iv, start_time = start,
             next_time = start + iv, stop_time = stop, expired = False\<rparr> \<and>
      TestTimer_init nm cb iv start stop =
        Inr \<lparr>name = nm, callback = cb, interval = iv, start_time = start,
             next_time = start + iv, stop_time = stop, expired = False,
             uuid_factory = 0\<rparr>)"
proof (intro conjI impI)
  assume a: "nm = [] \<or> \<not> is_callable cb \<or> iv \<le> 0 \<or>
      (case stop of None \<Rightarrow> False | Some st \<Rightarrow> st < start + iv) \<or>
      \<not> datetime_ok (start + iv)"
  from Timer_init_Inl [OF a] show "\<exists>e. Timer_init nm cb iv start stop = Inl e" .
  then show "\<exists>e. TestTimer_init nm cb iv start stop = Inl e"
    by (auto simp: TestTimer_init_def split: sum.splits)
next
  assume "Timer_init nm cb iv start stop = Inr t"
  from Timer_init_cases [OF this]
  show "name t \<noteq> []" "is_callable (callback t)" "0 < interval t" "\<not> expired t"
    "next_time t = start_time t + interval t" "datetime_ok (next_time t)"
    "case stop_time t of None \<Rightarrow> True | Some st \<Rightarrow> start_time t + interval t \<le> st"
    by (simp_all split: option.splits)
next
  assume a: "nm \<noteq> [] \<and> is_callable cb \<and> 0 < iv \<and>
      (case stop of None \<Rightarrow> True | Some st \<Rightarrow> start + iv \<le> st) \<and>
      datetime_ok (start + iv)"
  then show "Timer_init nm cb iv start stop =
        Inr \<lparr>name = nm, callback = cb, interval = iv, start_time = start,
             next_time = start + iv, stop_time = stop, expired = False\<rparr>"
    by (simp add: Timer_init_Inr)
  from a show "TestTimer_init nm cb iv start stop =
        Inr \<lparr>name = nm, callback = cb, interval = iv, start_time = start,
             next_time = start + iv, stop_time = stop, expired = False,
             uuid_factory = 0\<rparr>"
    by (simp add: TestTimer_init_Inr)
qed

theorem Timer_init_validates_witness:
  "(\<exists>e. Timer_init [] (Callable 0) 1000000 0 None = Inl e) \<and>
   (\<exists>e. Timer_init ''timer'' (Callable 0) 0 0 None = Inl e) \<and>
   (\<exists>e. Timer_init ''timer'' (Callable 0) 1000000 0 (Some 999999) = Inl e) \<and>
   (\<exists>e. Timer_init ''timer'' (Callable 0) 1000000 253402300799499999 None = Inl e) \<and>
   Timer_init ''timer'' (Callable 0) 1000000 0 (Some 2500000) =
     Inr \<lparr>name = ''timer'', callback = Callable 0, interval = 1000000, start_time = 0,
          next_time = 1000000, stop_time = Some 2500000, expired = False\<rparr> \<and>
   TestTimer_init ''timer'' (Callable 0) 1000000 0 (Some 2500000) = Inr demo_timer"
  using
    Timer_init_validates [where nm = "[]" and cb = "Callable 0" and iv = 1000000
      and start = 0 and stop = None]
    Timer_init_validates [where nm = "''timer''" and cb = "Callable 0" and iv = 0
      and start = 0 and stop = None]
    Timer_init_validates [where nm = "''timer''" and cb = "Callable 0" and iv = 1000000
      and start = 0 and stop = "Some 999999"]
    Timer_init_validates [where nm = "''timer''" and cb = "Callable 0" and iv = 1000000
      and start = 253402300799499999 and stop = None]
    Timer_init_validates [where nm = "''timer''" and cb = "Callable 0" and iv = 1000000
      and start = 0 and stop = "Some 2500000"
      and t = "\<lparr>name = ''timer'', callback = Callable 0, interval = 1000000, start_time = 0,
          next_time = 1000000, stop_time = Some 2500000, expired = False\<rparr>"]
  by (simp add: demo_timer_def datetime_ok_def datetime_min_def datetime_max_def)

text \<open>
  C6 as stated fails in its last part: a construction with a non-empty name, a positive
  interval and no stop time passes the three listed checks, and is still rejected when
  its callback is not callable.
\<close>

theorem Timer_init_rejected_counterexample:
  "''timer'' \<noteq> [] \<and> 0 < (1000000 :: int) \<and>
   Timer_init ''timer'' (NotCallable 0) 1000000 0 None = Inl (ConditionFailed ''function'')"
  by (simp add: Timer_init_def Condition_valid_string_def Condition_callable_def)

subsection \<open>Advancing past the stop time\<close>

text \<open>
  C1. The claim: for a TestTimer with interval 1s, start time \<open>T0\<close> and stop time \<open>T0 +
  2.5s\<close>, a single call \<open>advance(T0 + 10s)\<close> returns exactly 2 TimeEvents, at \<open>T0+1s\<close>
  and \<open>T0+2s\<close>, and leaves the timer expired. The code does not do this. With \<open>T0\<close> the
  epoch (times in microseconds), construction succeeds and the call returns three events:
  the third is at 3s, half a second after the stop time. \<^verbatim>\<open>iterate_next_time\<close> compares
  the stop time with the fire time just emitted, so a stop time that falls between two
  fire points is seen one interval late.
\<close>

theorem advance_past_stop_time_emits_event_after_stop:
  "TestTimer_init ''timer'' (Callable 0) 1000000 0 (Some 2500000) = Inr demo_timer \<and>
   advance demo_timer (Some 10000000) =
     Some (Inr ([\<lparr>event_name = ''timer'', event_id = 0, event_timestamp = 1000000\<rparr>,
                 \<lparr>event_name = ''timer'', event_id = 1, event_timestamp = 2000000\<rparr>,
                 \<lparr>event_name = ''timer'', event_id = 2, event_timestamp = 3000000\<rparr>],
                demo_timer\<lparr>next_time := 4000000, expired := True, uuid_factory := 3\<rparr>))"
  by (simp add: TestTimer_init_Inr demo_timer_def advance_eq_loop
      advance_loop_step advance_loop_done fire_event_def fire_def Let_def
      datetime_ok_def datetime_min_def datetime_max_def)

subsection \<open>Expired timers\<close>

text \<open>
  C2. The claim: on a TestTimer whose expired flag is true, \<open>advance(to_time)\<close> returns
  an empty sequence for every \<open>to_time\<close> and \<open>pop_next_event()\<close> yields an empty result
  too, neither raising. The code does the first and not the second: on the expired timer
  below \<open>advance\<close> returns the empty list and leaves the timer as it was, while
  \<open>pop_next_event\<close>, which never reads the flag, returns an event stamped 1s and moves
  \<open>next_time\<close> on to 2s.
\<close>

theorem pop_next_event_on_expired_returns_event:
  "expired demo_expired \<and>
   advance demo_expired (Some 10000000) = Some (Inr ([], demo_expired)) \<and>
   pop_next_event demo_expired =
     Inr (\<lparr>event_name = ''timer'', event_id = 0, event_timestamp = 1000000\<rparr>,
          demo_expired\<lparr>uuid_factory := 1, next_time := 2000000\<rparr>)"
  by (simp add: demo_expired_def demo_timer_def advance_eq_loop advance_loop_done
      pop_next_event_fire fire_event_def fire_def
      datetime_ok_def datetime_min_def datetime_max_def)

text \<open>
  C5. Once a TestTimer's expired flag is true, whether \<open>iterate_next_time\<close> set it on
  reaching the stop time or \<open>cancel()\<close> did, every later \<open>advance(to_time)\<close>, for any
  \<open>to_time\<close>, returns the empty sequence and leaves the timer as it was; no sequence of
  calls on the timer, returning or raising, makes the flag false again. Calling
  \<open>cancel()\<close> a second time is the same as calling it once.
\<close>

theorem expired_is_absorbing:
  "cancel (cancel t) = cancel t \<and> expired (cancel t) \<and>
   advance (cancel t) (Some T) = Some (Inr ([], cancel t)) \<and>
   (stop_time t = Some st \<and> st \<le> now \<and> datetime_ok (next_time t + interval t) \<longrightarrow>
      (\<exists>t'. iterate_next_time t (Some now) = Inr t' \<and> expired t' \<and>
         advance t' (Some T) = Some (Inr ([], t')))) \<and>
   (expired t \<longrightarrow> advance t (Some T) = Some (Inr ([], t))) \<and>
   (expired t \<and> name t \<noteq> [] \<and> 0 < interval t \<longrightarrow>
      (\<exists>t'. do_calls t cs = Some t' \<and> expired t' \<and>
         advance t' (Some T) = Some (Inr ([], t'))))"
proof -
  have adv: "advance u (Some T) = Some (Inr ([], u))" if "expired u" for u
    using that by (simp add: advance_eq_loop advance_loop_done)
  have c: "expired (cancel t)" by (simp add: cancel_def)
  have "stop_time t = Some st \<and> st \<le> now \<and> datetime_ok (next_time t + interval t) \<longrightarrow>
      (\<exists>t'. iterate_next_time t (Some now) = Inr t' \<and> expired t' \<and>
         advance t' (Some T) = Some (Inr ([], t')))"
    by (simp add: iterate_next_time_def Condition_not_none_def Let_def adv datetime_add_ok)
  moreover have "expired t \<and> name t \<noteq> [] \<and> 0 < interval t \<longrightarrow>
      (\<exists>t'. do_calls t cs = Some t' \<and> expired t' \<and>
         advance t' (Some T) = Some (Inr ([], t')))"
  proof
    assume a: "expired t \<and> name t \<noteq> [] \<and> 0 < interval t"
    then obtain t' where "do_calls t cs = Some t'" "expired t' \<or> \<not> expired t"
      using do_calls_inv [of t cs] by blast
    then show "\<exists>t'. do_calls t cs = Some t' \<and> expired t' \<and>
         advance t' (Some T) = Some (Inr ([], t'))"
      using a adv by blast
  qed
  moreover have "cancel (cancel t) = cancel t" by (simp add: cancel_def)
  ultimately show ?thesis using adv c by blast
qed

theorem expired_is_absorbing_witness:
  "stop_time demo_timer = Some 2500000 \<and> (2500000 :: int) \<le> 3000000 \<and>
   datetime_ok (next_time demo_timer + interval demo_timer) \<and>
   expired demo_expired \<and> name demo_expired \<noteq> [] \<and> 0 < interval demo_expired \<and>
   advance demo_expired (Some 10000000) = Some (Inr ([], demo_expired)) \<and>
   (\<exists>t'. iterate_next_time demo_timer (Some 3000000) = Inr t' \<and> expired t' \<and>
      advance t' (Some 10000000) = Some (Inr ([], t'))) \<and>
   (\<exists>t'. do_calls demo_expired [Advance 5000000, PopNextEvent, Cancel, Advance 9000000] =
        Some t' \<and> expired t' \<and>
      advance t' (Some 10000000) = Some (Inr ([], t')))"
  using
    expired_is_absorbing [of demo_timer 10000000 2500000 3000000 "[]"]
    expired_is_absorbing [of demo_expired 10000000 2500000 3000000
      "[Advance 5000000, PopNextEvent, Cancel, Advance 9000000]"]
  by (simp add: demo_expired_def demo_timer_def datetime_ok_def datetime_min_def
      datetime_max_def)
subsection \<open>The events of one advance\<close>




subsection \<open>Advancing in two steps\<close>

text \<open>
  C4. For every TestTimer (its name is not empty and its interval is positive, as
  construction ensures) and times \<open>T1 <= T2\<close>, calling \<open>advance(T1)\<close> and then
  \<open>advance(T2)\<close> leaves the timer with exactly the \<open>next_time\<close> and \<open>expired\<close> that a
  single \<open>advance(T2)\<close> on the same timer leaves; all three calls end, and this holds
  also when they raise. When the single call returns, so do the other two, they leave
  the very same timer, and the events of the single call are those of the first call
  followed by those of the second (with the identifiers the modelled factory hands
  out). The calls do return when \<open>T2 + interval\<close> is in the range of \<^verbatim>\<open>datetime\<close>.
\<close>

theorem advance_in_two_steps:
  "name t \<noteq> [] \<and> 0 < interval t \<and> T1 \<le> T2 \<longrightarrow>
   (\<exists>r1 r2 r.
      advance t (Some T1) = Some r1 \<and>
      advance (timer_after r1) (Some T2) = Some r2 \<and>
      advance t (Some T2) = Some r \<and>
      next_time (timer_after r2) = next_time (timer_after r) \<and>
      expired (timer_after r2) = expired (timer_after r) \<and>
      (case r of
         Inl x \<Rightarrow> True
       | Inr (e, t2) \<Rightarrow> (\<exists>e1 t1 e2. r1 = Inr (e1, t1) \<and> r2 = Inr (e2, t2) \<and> e = e1 @ e2)) \<and>
      (datetime_min \<le> next_time t \<and> T2 + interval t \<le> datetime_max \<longrightarrow>
         (\<exists>e1 t1 e2 t2. r1 = Inr (e1, t1) \<and> r2 = Inr (e2, t2) \<and> r = Inr (e1 @ e2, t2))))"
proof
  assume a: "name t \<noteq> [] \<and> 0 < interval t \<and> T1 \<le> T2"
  have main: "\<exists>r1 r2 r.
      advance t (Some T1) = Some r1 \<and>
      advance (timer_after r1) (Some T2) = Some r2 \<and>
      advance t (Some T2) = Some r \<and>
      next_time (timer_after r2) = next_time (timer_after r) \<and>
      expired (timer_after r2) = expired (timer_after r) \<and>
      (case r of
         Inl x \<Rightarrow> True
       | Inr (e, t2) \<Rightarrow> (\<exists>e1 t1 e2. r1 = Inr (e1, t1) \<and> r2 = Inr (e2, t2) \<and> e = e1 @ e2))"
  proof -
    from advance_loop_split [of t T1 T2] a
    consider
      (ret) e1 t1 where
        "\<forall>acc. advance_loop T1 acc t = Some (Inr (acc @ e1, t1))"
        "\<forall>acc. advance_loop T2 (acc @ e1) t1 = advance_loop T2 acc t"
        "name t1 = name t" "interval t1 = interval t"
    | (raise) t1 t2 tr where
        "\<forall>acc. advance_loop T1 acc t = Some (Inl (OverflowError, t1))"
        "\<forall>acc. advance_loop T2 acc t1 = Some (Inl (OverflowError, t2))"
        "\<forall>acc. advance_loop T2 acc t = Some (Inl (OverflowError, tr))"
        "next_time t2 = next_time tr" "expired t2 = expired tr"
      by blast
    then show ?thesis
    proof cases
      case ret
      from a ret(3,4) have "name t1 \<noteq> []" "0 < interval t1" by simp_all
      from advance_loop_total [OF this, of T2] obtain r2 where
        l3: "\<forall>acc. advance_loop T2 acc t1 = Some (prepend acc r2)"
        by blast
      from ret(1) have a1: "advance t (Some T1) = Some (Inr (e1, t1))"
        by (simp add: advance_eq_loop)
      from l3 have a2: "advance t1 (Some T2) = Some r2"
        by (simp add: advance_eq_loop prepend_simps)
      from ret(2) have "advance_loop T2 [] t = advance_loop T2 ([] @ e1) t1" by metis
      also have "\<dots> = Some (prepend e1 r2)" using l3 by simp
      finally have a3: "advance t (Some T2) = Some (prepend e1 r2)"
        by (simp add: advance_eq_loop)
      have c: "case prepend e1 r2 of
           Inl x \<Rightarrow> True
         | Inr (e, t2) \<Rightarrow>
             (\<exists>e1' t1' e2. Inr (e1, t1) = Inr (e1', t1') \<and> r2 = Inr (e2, t2) \<and> e = e1' @ e2)"
        by (cases r2) (auto simp: prepend_def)
      show ?thesis
        using a1 a2 a3 c
        by (intro exI [of _ "Inr (e1, t1)"] exI [of _ r2] exI [of _ "prepend e1 r2"] conjI)
           (simp_all add: timer_after_simps prepend_simps)
    next
      case raise
      then show ?thesis
        by (intro exI [of _ "Inl (OverflowError, t1)"] exI [of _ "Inl (OverflowError, t2)"]
              exI [of _ "Inl (OverflowError, tr)"] conjI)
           (simp_all add: timer_after_simps advance_eq_loop)
    qed
  qed
  then obtain r1 r2 r where
    m: "advance t (Some T1) = Some r1" "advance (timer_after r1) (Some T2) = Some r2"
      "advance t (Some T2) = Some r"
      "next_time (timer_after r2) = next_time (timer_after r)"
      "expired (timer_after r2) = expired (timer_after r)"
      "case r of
         Inl x \<Rightarrow> True
       | Inr (e, t2) \<Rightarrow> (\<exists>e1 t1 e2. r1 = Inr (e1, t1) \<and> r2 = Inr (e2, t2) \<and> e = e1 @ e2)"
    by blast
  have "datetime_min \<le> next_time t \<and> T2 + interval t \<le> datetime_max \<longrightarrow>
         (\<exists>e1 t1 e2 t2. r1 = Inr (e1, t1) \<and> r2 = Inr (e2, t2) \<and> r = Inr (e1 @ e2, t2))"
  proof
    assume b: "datetime_min \<le> next_time t \<and> T2 + interval t \<le> datetime_max"
    with a advance_no_overflow [of t T2] m(3) obtain e t2 where "r = Inr (e, t2)"
      by auto
    with m(6) show "\<exists>e1 t1 e2 t2. r1 = Inr (e1, t1) \<and> r2 = Inr (e2, t2) \<and> r = Inr (e1 @ e2, t2)"
      by auto
  qed
  with m show "\<exists>r1 r2 r.
      advance t (Some T1) = Some r1 \<and>
      advance (timer_after r1) (Some T2) = Some r2 \<and>
      advance t (Some T2) = Some r \<and>
      next_time (timer_after r2) = next_time (timer_after r) \<and>
      expired (timer_after r2) = expired (timer_after r) \<and>
      (case r of
         Inl x \<Rightarrow> True
       | Inr (e, t2) \<Rightarrow> (\<exists>e1 t1 e2. r1 = Inr (e1, t1) \<and> r2 = Inr (e2, t2) \<and> e = e1 @ e2)) \<and>
      (datetime_min \<le> next_time t \<and> T2 + interval t \<le> datetime_max \<longrightarrow>
         (\<exists>e1 t1 e2 t2. r1 = Inr (e1, t1) \<and> r2 = Inr (e2, t2) \<and> r = Inr (e1 @ e2, t2)))"
    by blast
qed

theorem advance_in_two_steps_witness:
  "name demo_timer \<noteq> [] \<and> 0 < interval demo_timer \<and> (1500000 :: int) \<le> 10000000 \<and>
   datetime_min \<le> next_time demo_timer \<and> 10000000 + interval demo_timer \<le> datetime_max \<and>
   (\<exists>e1 t1 e2 t2.
      advance demo_timer (Some 1500000) = Some (Inr (e1, t1)) \<and>
      advance t1 (Some 10000000) = Some (Inr (e2, t2)) \<and>
      advance demo_timer (Some 10000000) = Some (Inr (e1 @ e2, t2)))"
proof -
  have h: "name demo_timer \<noteq> [] \<and> 0 < interval demo_timer \<and> (1500000 :: int) \<le> 10000000"
    and b: "datetime_min \<le> next_time demo_timer \<and>
      10000000 + interval demo_timer \<le> datetime_max"
    by (simp_all add: demo_timer_def datetime_min_def datetime_max_def)
  from advance_in_two_steps [of demo_timer 1500000 10000000] h b
  obtain r1 r2 r e1 t1 e2 t2 where
    "advance demo_timer (Some 1500000) = Some r1"
    "advance (timer_after r1) (Some 10000000) = Some r2"
    "advance demo_timer (Some 10000000) = Some r"
    "r1 = Inr (e1, t1)" "r2 = Inr (e2, t2)" "r = Inr (e1 @ e2, t2)"
    by blast
  then have "advance demo_timer (Some 1500000) = Some (Inr (e1, t1)) \<and>
      advance t1 (Some 10000000) = Some (Inr (e2, t2)) \<and>
      advance demo_timer (Some 10000000) = Some (Inr (e1 @ e2, t2))"
    by (simp add: timer_after_simps)
  then show ?thesis using h b by blast
qed

subsection \<open>The grid of next_time\<close>

text \<open>
  C8. For every validly constructed timer, \<open>next_time\<close> equals \<open>start_time + interval\<close>
  immediately after construction. Thereafter, whatever sequence of calls is made on it
  (each call ends, returning or raising), \<open>next_time\<close> equals \<open>start_time + k *
  interval\<close> for some \<open>k >= 1\<close>, and further calls never decrease it; each
  \<open>iterate_next_time\<close> that returns has added exactly one interval, and one that raises
  has changed nothing.
\<close>

theorem next_time_on_grid:
  "(Timer_init nm cb iv start stop = Inr tb \<longrightarrow>
      next_time tb = start_time tb + interval tb \<and> start_time tb = start \<and>
      interval tb = iv) \<and>
   (TestTimer_init nm cb iv start stop = Inr tt \<longrightarrow>
      next_time tt = start_time tt + interval tt \<and>
      (\<exists>t1 t2 k. do_calls tt csa = Some t1 \<and> do_calls t1 csb = Some t2 \<and>
         1 \<le> k \<and> next_time t1 = start_time t1 + int k * interval t1 \<and>
         start_time t1 = start \<and> interval t1 = iv \<and>
         next_time t1 \<le> next_time t2)) \<and>
   (case iterate_next_time u (Some now) of
      Inl e \<Rightarrow> e = OverflowError \<and> \<not> datetime_ok (next_time u + interval u)
    | Inr u' \<Rightarrow> next_time u' = next_time u + interval u \<and> interval u' = interval u \<and>
        start_time u' = start_time u \<and> datetime_ok (next_time u + interval u))"
proof (intro conjI impI)
  assume "Timer_init nm cb iv start stop = Inr tb"
  from Timer_init_cases [OF this]
  show "next_time tb = start_time tb + interval tb" "start_time tb = start" "interval tb = iv"
    by simp_all
next
  assume "TestTimer_init nm cb iv start stop = Inr tt"
  from TestTimer_init_cases [OF this]
  have v: "nm \<noteq> []" "0 < iv" and f: "name tt = nm" "interval tt = iv" "start_time tt = start"
    "next_time tt = start + iv"
    by simp_all
  show "next_time tt = start_time tt + interval tt" using f by simp
  have "name tt \<noteq> []" "0 < interval tt" using v f by simp_all
  from do_calls_inv [OF this, of csa] obtain t1 k1 where
    c1: "do_calls tt csa = Some t1" and f1: "name t1 = name tt" "interval t1 = interval tt"
    "start_time t1 = start_time tt" and n1: "next_time t1 = next_time tt + int k1 * interval tt"
    by blast
  have "name t1 \<noteq> []" "0 < interval t1" using v f f1 by simp_all
  from do_calls_inv [OF this, of csb] obtain t2 k2 where
    c2: "do_calls t1 csb = Some t2"
    and n2: "next_time t2 = next_time t1 + int k2 * interval t1"
    by blast
  have g: "next_time t1 = start_time t1 + int (Suc k1) * interval t1"
    using n1 f f1 by (simp add: algebra_simps)
  have "0 \<le> int k2 * interval t1" using \<open>0 < interval t1\<close> by simp
  then have m: "next_time t1 \<le> next_time t2" using n2 by simp
  have "1 \<le> Suc k1" by simp
  then show "\<exists>t1 t2 k. do_calls tt csa = Some t1 \<and> do_calls t1 csb = Some t2 \<and>
         1 \<le> k \<and> next_time t1 = start_time t1 + int k * interval t1 \<and>
         start_time t1 = start \<and> interval t1 = iv \<and>
         next_time t1 \<le> next_time t2"
    using c1 c2 g m f f1 by metis
next
  show "case iterate_next_time u (Some now) of
      Inl e \<Rightarrow> e = OverflowError \<and> \<not> datetime_ok (next_time u + interval u)
    | Inr u' \<Rightarrow> next_time u' = next_time u + interval u \<and> interval u' = interval u \<and>
        start_time u' = start_time u \<and> datetime_ok (next_time u + interval u)"
    by (simp add: iterate_next_time_def Condition_not_none_def Let_def datetime_add_def)
qed

theorem next_time_on_grid_witness:
  "Timer_init ''timer'' (Callable 0) 1000000 0 (Some 2500000) =
     Inr \<lparr>name = ''timer'', callback = Callable 0, interval = 1000000, start_time = 0,
          next_time = 1000000, stop_time = Some 2500000, expired = False\<rparr> \<and>
   TestTimer_init ''timer'' (Callable 0) 1000000 0 (Some 2500000) = Inr demo_timer \<and>
   next_time demo_timer = start_time demo_timer + interval demo_timer \<and>
   (\<exists>t1 t2 k. do_calls demo_timer [Advance 1500000, PopEvent 7] = Some t1 \<and>
      do_calls t1 [IterateNextTime 2000000, Cancel, PopNextEvent] = Some t2 \<and>
      1 \<le> k \<and> next_time t1 = start_time t1 + int k * interval t1 \<and>
      start_time t1 = 0 \<and> interval t1 = 1000000 \<and> next_time t1 \<le> next_time t2)"
  using next_time_on_grid [where nm = "''timer''" and cb = "Callable 0" and iv = 1000000
      and start = 0 and stop = "Some 2500000" and tt = demo_timer
      and csa = "[Advance 1500000, PopEvent 7]"
      and csb = "[IterateNextTime 2000000, Cancel, PopNextEvent]"
      and u = demo_timer and now = 0
      and tb = "\<lparr>name = ''timer'', callback = Callable 0, interval = 1000000, start_time = 0,
          next_time = 1000000, stop_time = Some 2500000, expired = False\<rparr>"]
  by (simp add: demo_timer_def Timer_init_Inr TestTimer_init_Inr datetime_ok_def
      datetime_min_def datetime_max_def)
end
